theory Spec2Isabelle
  imports Main "HOL-Library.Sublist"
begin

section \<open>Python values used by mq_client.py\<close>

text \<open>
  A Python \<open>str\<close> is a sequence of Unicode code points, a \<open>bytes\<close> object a sequence of
  octets; both are lists of naturals here. \<open>ustr\<close> reads an ASCII literal of the source.
\<close>

type_synonym pystr = "nat list"
type_synonym pybytes = "nat list"

definition ustr :: "string \<Rightarrow> pystr" where
  "ustr cs = map of_char cs"

text \<open>\<open>s.startswith(p)\<close>.\<close>

definition startswith :: "pystr \<Rightarrow> pystr \<Rightarrow> bool" where
  "startswith s p = prefix p s"

text \<open>\<open>s.find(sub)\<close>: the lowest index where \<open>sub\<close> starts, \<open>-1\<close> when there is none.\<close>

fun find_from :: "pystr \<Rightarrow> pystr \<Rightarrow> int \<Rightarrow> int" where
  "find_from sub [] i = (if sub = [] then i else - 1)"
| "find_from sub (c # cs) i = (if prefix sub (c # cs) then i else find_from sub cs (i + 1))"

definition str_find :: "pystr \<Rightarrow> pystr \<Rightarrow> int" where
  "str_find s sub = find_from sub s 0"

section \<open>clean_message (lines 67-77)\<close>

text \<open>The character class \<open>[\x00-\x08\x0b-\x0c\x0e-\x1f]\<close> of line 69.\<close>

definition ctrl_class :: "nat \<Rightarrow> bool" where
  "ctrl_class c \<longleftrightarrow> (0x00 \<le> c \<and> c \<le> 0x08) \<or> (0x0b \<le> c \<and> c \<le> 0x0c) \<or> (0x0e \<le> c \<and> c \<le> 0x1f)"

text \<open>\<open>re.sub(cls, '', msg)\<close> for a pattern that is one character class.\<close>

definition re_sub_class :: "(nat \<Rightarrow> bool) \<Rightarrow> pystr \<Rightarrow> pystr" where
  "re_sub_class cls msg = filter (\<lambda>c. \<not> cls c) msg"

definition clean_message :: "pystr \<Rightarrow> pystr" where
  "clean_message msg0 =
     (let msg = re_sub_class ctrl_class msg0 in
      if startswith msg (ustr ''RFH'') then
        (let idx = str_find msg (ustr ''<?xml'') in
         if idx \<noteq> - 1 then drop (nat idx) msg else msg)
      else msg)"

section \<open>html.unescape (line 88)\<close>

text \<open>
  The standard library's \<open>html.unescape\<close>, after \<open>Lib/html/__init__.py\<close>. The table of
  named references \<open>html.entities.html5\<close> (2231 entries) is a parameter \<open>h5\<close>.
\<close>

type_synonym html5 = "pystr \<Rightarrow> pystr option"

definition is_digit :: "nat \<Rightarrow> bool" where
  "is_digit c \<longleftrightarrow> 48 \<le> c \<and> c \<le> 57"

definition is_hexdigit :: "nat \<Rightarrow> bool" where
  "is_hexdigit c \<longleftrightarrow> is_digit c \<or> (97 \<le> c \<and> c \<le> 102) \<or> (65 \<le> c \<and> c \<le> 70)"

text \<open>The class \<open>[^\t\n\f <&#;]\<close>.\<close>

definition is_namechar :: "nat \<Rightarrow> bool" where
  "is_namechar c \<longleftrightarrow> c \<notin> set [9, 10, 12, 32, 60, 38, 35, 59]"

text \<open>An optional \<open>;\<close> (the regular expression's \<open>;?\<close>) at the head of \<open>r\<close>.\<close>

definition opt_semi :: "pystr \<Rightarrow> pystr" where
  "opt_semi r = (case r of [] \<Rightarrow> [] | c # _ \<Rightarrow> if c = 59 then [59] else [])"

text \<open>
  The group of \<open>_charref\<close> matched right after an ampersand:
  \<open>#[0-9]+;?\<close>, else \<open>#[xX][0-9a-fA-F]+;?\<close>, else \<open>[^\t\n\f <&#;]{1,32};?\<close>.
  Every quantifier is greedy and nothing follows the group, so the first alternative
  that matches a character wins with its longest match.
\<close>

definition match_charref :: "pystr \<Rightarrow> pystr option" where
  "match_charref r =
     (let dec = (case r of [] \<Rightarrow> [] | c # r1 \<Rightarrow> if c = 35 then takeWhile is_digit r1 else []);
          hex = (case r of c # x # r2 \<Rightarrow>
                   if c = 35 \<and> (x = 120 \<or> x = 88) then takeWhile is_hexdigit r2 else []
                 | _ \<Rightarrow> []);
          nam = takeWhile is_namechar (take 32 r)
      in if dec \<noteq> [] then Some (35 # dec @ opt_semi (drop (1 + length dec) r))
         else if hex \<noteq> [] then Some (take 2 r @ hex @ opt_semi (drop (2 + length hex) r))
         else if nam \<noteq> [] then Some (nam @ opt_semi (drop (length nam) r))
         else None)"

definition invalid_charrefs :: "nat \<Rightarrow> nat option" where
  "invalid_charrefs = map_of
     [(0x00, 0xfffd), (0x0d, 0x0d), (0x80, 0x20ac), (0x81, 0x81), (0x82, 0x201a),
      (0x83, 0x0192), (0x84, 0x201e), (0x85, 0x2026), (0x86, 0x2020), (0x87, 0x2021),
      (0x88, 0x02c6), (0x89, 0x2030), (0x8a, 0x0160), (0x8b, 0x2039), (0x8c, 0x0152),
      (0x8d, 0x8d), (0x8e, 0x017d), (0x8f, 0x8f), (0x90, 0x90), (0x91, 0x2018),
      (0x92, 0x2019), (0x93, 0x201c), (0x94, 0x201d), (0x95, 0x2022), (0x96, 0x2013),
      (0x97, 0x2014), (0x98, 0x02dc), (0x99, 0x2122), (0x9a, 0x0161), (0x9b, 0x203a),
      (0x9c, 0x0153), (0x9d, 0x9d), (0x9e, 0x017e), (0x9f, 0x0178)]"

definition invalid_codepoints :: "nat \<Rightarrow> bool" where
  "invalid_codepoints n \<longleftrightarrow>
     (0x1 \<le> n \<and> n \<le> 0x8) \<or> (0xe \<le> n \<and> n \<le> 0x1f) \<or> (0x7f \<le> n \<and> n \<le> 0x9f)
     \<or> (0xfdd0 \<le> n \<and> n \<le> 0xfdef) \<or> n = 0xb
     \<or> (n \<le> 0x10ffff \<and> (n mod 0x10000 = 0xfffe \<or> n mod 0x10000 = 0xffff))"

text \<open>\<open>int(s, base)\<close> on a string of digits of that base.\<close>

definition digit_val :: "nat \<Rightarrow> nat" where
  "digit_val c = (if is_digit c then c - 48 else if 97 \<le> c then c - 87 else c - 55)"

definition int_of_str :: "nat \<Rightarrow> pystr \<Rightarrow> nat" where
  "int_of_str base ds = foldl (\<lambda>acc d. acc * base + digit_val d) 0 ds"

text \<open>\<open>s.rstrip(';')\<close>.\<close>

definition rstrip_semi :: "pystr \<Rightarrow> pystr" where
  "rstrip_semi s = rev (dropWhile (\<lambda>c. c = 59) (rev s))"

text \<open>
  The loop \<open>for x in range(len(s)-1, 1, -1)\<close> of \<open>_replace_charref\<close>: the longest proper
  prefix of at least two characters that is a name of the table.
\<close>

fun longest_name :: "html5 \<Rightarrow> pystr \<Rightarrow> nat \<Rightarrow> pystr option" where
  "longest_name h5 s 0 = None"
| "longest_name h5 s (Suc x) =
     (if Suc x \<le> 1 then None
      else case h5 (take (Suc x) s) of
             Some v \<Rightarrow> Some (v @ drop (Suc x) s)
           | None \<Rightarrow> longest_name h5 s x)"

definition replace_charref :: "html5 \<Rightarrow> pystr \<Rightarrow> pystr" where
  "replace_charref h5 s =
     (if hd s = 35 then
        (let num = (if s ! 1 = 120 \<or> s ! 1 = 88 then int_of_str 16 (rstrip_semi (drop 2 s))
                    else int_of_str 10 (rstrip_semi (drop 1 s)))
         in case invalid_charrefs num of
              Some c \<Rightarrow> [c]
            | None \<Rightarrow>
                if (0xD800 \<le> num \<and> num \<le> 0xDFFF) \<or> num > 0x10FFFF then [0xFFFD]
                else if invalid_codepoints num then []
                else [num])
      else
        (case h5 s of
           Some v \<Rightarrow> v
         | None \<Rightarrow> (case longest_name h5 s (length s - 1) of
                      Some v \<Rightarrow> v
                    | None \<Rightarrow> 38 # s)))"

text \<open>\<open>_charref.sub(_replace_charref, s)\<close>: matches are found left to right and do not overlap.\<close>

function charref_sub :: "html5 \<Rightarrow> pystr \<Rightarrow> pystr" where
  "charref_sub h5 [] = []"
| "charref_sub h5 (c # cs) =
     (if c = 38 then
        (case match_charref cs of
           Some g \<Rightarrow> replace_charref h5 g @ charref_sub h5 (drop (length g) cs)
         | None \<Rightarrow> c # charref_sub h5 cs)
      else c # charref_sub h5 cs)"
  by pat_completeness auto
termination
  by (relation "measure (\<lambda>(h5, s). length s)") auto

definition html_unescape :: "html5 \<Rightarrow> pystr \<Rightarrow> pystr" where
  "html_unescape h5 s = (if 38 \<notin> set s then s else charref_sub h5 s)"

text \<open>The text that \<open>save_message\<close> stores (lines 85 and 88).\<close>

definition sanitize :: "html5 \<Rightarrow> pystr \<Rightarrow> pystr" where
  "sanitize h5 msg = html_unescape h5 (clean_message msg)"

text \<open>
  Some entries of \<open>html.entities.html5\<close>, for the concrete inputs below where a table is
  needed.
\<close>

definition html5_fragment :: html5 where
  "html5_fragment = map_of
     [(ustr ''amp;'', ustr ''&''), (ustr ''amp'', ustr ''&''),
      (ustr ''lt;'', ustr ''<''), (ustr ''lt'', ustr ''<''),
      (ustr ''gt;'', ustr ''>''), (ustr ''gt'', ustr ''>''),
      (ustr ''quot;'', [34]), (ustr ''quot'', [34]),
      (ustr ''apos;'', [39])]"

section \<open>bytes.decode('utf-8', errors='ignore') (line 152)\<close>

text \<open>
  CPython's UTF-8 decoder (\<open>utf8_decode\<close> in \<open>Objects/stringlib/codecs.h\<close>) with the
  \<open>ignore\<close> error handler: an invalid start byte is skipped; after a start byte, the bytes
  up to the first one that cannot continue the sequence are skipped; a sequence cut off by
  the end of the data is skipped whole.
\<close>

definition is_cont :: "nat \<Rightarrow> bool" where
  "is_cont b \<longleftrightarrow> 0x80 \<le> b \<and> b < 0xC0"

fun decode_utf8_ignore :: "pybytes \<Rightarrow> pystr" where
  "decode_utf8_ignore [] = []"
| "decode_utf8_ignore (ch # s) =
     (if ch < 0x80 then ch # decode_utf8_ignore s
      else if ch < 0xC2 then decode_utf8_ignore s
      else if ch < 0xE0 then
        (case s of
           [] \<Rightarrow> []
         | ch2 # s2 \<Rightarrow>
             if \<not> is_cont ch2 then decode_utf8_ignore s
             else (ch * 64 + ch2 - (0xC0 * 64 + 0x80)) # decode_utf8_ignore s2)
      else if ch < 0xF0 then
        (case s of
           [] \<Rightarrow> []
         | ch2 # s2 \<Rightarrow>
             if \<not> is_cont ch2 \<or> (ch = 0xE0 \<and> ch2 < 0xA0) \<or> (ch = 0xED \<and> 0xA0 \<le> ch2)
             then decode_utf8_ignore s
             else (case s2 of
                     [] \<Rightarrow> []
                   | ch3 # s3 \<Rightarrow>
                       if \<not> is_cont ch3 then decode_utf8_ignore s2
                       else (ch * 4096 + ch2 * 64 + ch3 - (0xE0 * 4096 + 0x80 * 64 + 0x80))
                              # decode_utf8_ignore s3))
      else if ch < 0xF5 then
        (case s of
           [] \<Rightarrow> []
         | ch2 # s2 \<Rightarrow>
             if \<not> is_cont ch2 \<or> (ch = 0xF0 \<and> ch2 < 0x90) \<or> (ch = 0xF4 \<and> 0x90 \<le> ch2)
             then decode_utf8_ignore s
             else (case s2 of
                     [] \<Rightarrow> []
                   | ch3 # s3 \<Rightarrow>
                       if \<not> is_cont ch3 then decode_utf8_ignore s2
                       else (case s3 of
                               [] \<Rightarrow> []
                             | ch4 # s4 \<Rightarrow>
                                 if \<not> is_cont ch4 then decode_utf8_ignore s3
                                 else (ch * 262144 + ch2 * 4096 + ch3 * 64 + ch4
                                        - (0xF0 * 262144 + 0x80 * 4096 + 0x80 * 64 + 0x80))
                                        # decode_utf8_ignore s4)))
      else decode_utf8_ignore s)"

text \<open>The UTF-8 encoding of a code point, and of a text.\<close>

definition utf8_encode_char :: "nat \<Rightarrow> pybytes" where
  "utf8_encode_char c =
     (if c < 0x80 then [c]
      else if c < 0x800 then [0xC0 + c div 64, 0x80 + c mod 64]
      else if c < 0x10000 then [0xE0 + c div 4096, 0x80 + c div 64 mod 64, 0x80 + c mod 64]
      else [0xF0 + c div 262144, 0x80 + c div 4096 mod 64, 0x80 + c div 64 mod 64, 0x80 + c mod 64])"

definition utf8_encode :: "pystr \<Rightarrow> pybytes" where
  "utf8_encode t = concat (map utf8_encode_char t)"

text \<open>A Unicode scalar value: a code point that is not a surrogate.\<close>

definition is_scalar :: "nat \<Rightarrow> bool" where
  "is_scalar c \<longleftrightarrow> c < 0xD800 \<or> (0xE000 \<le> c \<and> c < 0x110000)"

section \<open>save_message (lines 80-104)\<close>

text \<open>The module constants of lines 19 and 25.\<close>

definition QUEUE_NAME :: pystr where
  "QUEUE_NAME = ustr ''xxxxxxxx''"

definition XML_SAVE_DIR :: pystr where
  "XML_SAVE_DIR = ustr ''extracted_data''"

text \<open>
  \<open>datetime.now(timezone.utc)\<close> and \<open>strftime("%Y%m%dT%H%M%SZ")\<close>: each field in decimal,
  padded with zeros to its width.
\<close>

record datetime =
  dt_year :: nat
  dt_month :: nat
  dt_day :: nat
  dt_hour :: nat
  dt_minute :: nat
  dt_second :: nat

fun dec_digits :: "nat \<Rightarrow> pystr" where
  "dec_digits n = (if n < 10 then [48 + n] else dec_digits (n div 10) @ [48 + n mod 10])"

definition zpad :: "nat \<Rightarrow> nat \<Rightarrow> pystr" where
  "zpad w n = replicate (w - length (dec_digits n)) 48 @ dec_digits n"

definition strftime :: "datetime \<Rightarrow> pystr" where
  "strftime d =
     zpad 4 (dt_year d) @ zpad 2 (dt_month d) @ zpad 2 (dt_day d) @ ustr ''T''
     @ zpad 2 (dt_hour d) @ zpad 2 (dt_minute d) @ zpad 2 (dt_second d) @ ustr ''Z''"

text \<open>\<open>os.path.join(a, b)\<close> for a relative \<open>b\<close>, with the POSIX separator.\<close>

definition os_path_join :: "pystr \<Rightarrow> pystr \<Rightarrow> pystr" where
  "os_path_join a b = a @ ustr ''/'' @ b"

text \<open>
  \<open>xml.etree.ElementTree\<close>: an element has a tag, a text (\<open>None\<close> until assigned) and
  children; \<open>_serialize_xml\<close> and \<open>_escape_cdata\<close> after \<open>Lib/xml/etree/ElementTree.py\<close>.
\<close>

datatype element = Element pystr "pystr option" "element list"

text \<open>\<open>s.replace(c, new)\<close> for a one-character \<open>c\<close>.\<close>

definition str_replace :: "nat \<Rightarrow> pystr \<Rightarrow> pystr \<Rightarrow> pystr" where
  "str_replace c new s = concat (map (\<lambda>x. if x = c then new else [x]) s)"

definition escape_cdata :: "pystr \<Rightarrow> pystr" where
  "escape_cdata text0 =
     (let text1 = (if 38 \<in> set text0 then str_replace 38 (ustr ''&amp;'') text0 else text0);
          text2 = (if 60 \<in> set text1 then str_replace 60 (ustr ''&lt;'') text1 else text1);
          text3 = (if 62 \<in> set text2 then str_replace 62 (ustr ''&gt;'') text2 else text2)
      in text3)"

fun serialize_xml :: "element \<Rightarrow> pystr" where
  "serialize_xml (Element tag text kids) =
     (if (text \<noteq> None \<and> text \<noteq> Some []) \<or> kids \<noteq> [] then
        ustr ''<'' @ tag @ ustr ''>''
        @ (case text of Some t \<Rightarrow> escape_cdata t | None \<Rightarrow> [])
        @ concat (map serialize_xml kids)
        @ ustr ''</'' @ tag @ ustr ''>''
      else ustr ''<'' @ tag @ ustr '' />'')"

text \<open>
  What \<open>tree.write(filename, encoding="utf-8", xml_declaration=True)\<close> hands to the file it
  opens with that encoding: the declaration line, then the serialized root.
\<close>

record xmlfile =
  f_path :: pystr
  f_encoding :: pystr
  f_text :: pystr

definition xml_declaration :: "pystr \<Rightarrow> pystr" where
  "xml_declaration enc =
     ustr ''<?xml version='' @ [39] @ ustr ''1.0'' @ [39] @ ustr '' encoding='' @ [39] @ enc
     @ [39] @ ustr ''?>'' @ [10]"

definition tree_write :: "pystr \<Rightarrow> element \<Rightarrow> pystr \<Rightarrow> xmlfile" where
  "tree_write filename root enc =
     \<lparr>f_path = filename, f_encoding = enc, f_text = xml_declaration enc @ serialize_xml root\<rparr>"

text \<open>Lines 81-98: the file name and the tree that \<open>save_message\<close> builds.\<close>

definition message_filename :: "pystr \<Rightarrow> pystr" where
  "message_filename timestamp = ustr ''message_'' @ timestamp @ ustr ''.xml''"

definition message_tree :: "pystr \<Rightarrow> pystr \<Rightarrow> element" where
  "message_tree timestamp clean_content =
     Element (ustr ''MQMessage'') None
       [Element (ustr ''Timestamp'') (Some timestamp) [],
        Element (ustr ''QueueName'') (Some QUEUE_NAME) [],
        Element (ustr ''MessageType'') (Some (ustr ''Text'')) [],
        Element (ustr ''Content'') (Some clean_content) []]"

definition message_file :: "html5 \<Rightarrow> datetime \<Rightarrow> pystr \<Rightarrow> xmlfile" where
  "message_file h5 d msg =
     (let timestamp = strftime d;
          filename = os_path_join XML_SAVE_DIR (message_filename timestamp);
          clean_msg = clean_message msg;
          clean_content = html_unescape h5 clean_msg
      in tree_write filename (message_tree timestamp clean_content) (ustr ''utf-8''))"

section \<open>The listener (lines 107-171)\<close>

text \<open>
  What \<open>queue.get\<close> returns (pymqi returns \<open>bytes\<close>; line 151 also allows a \<open>str\<close>), and
  the exceptions the listener tells apart: \<open>pymqi.MQMIError\<close> with its reason code, and
  the other subclasses of \<open>Exception\<close> (\<open>OSError\<close> from the file system among them).
\<close>

datatype pyval = PyBytes pybytes | PyStr pystr

datatype exn = MQMIError nat | OSError | OtherException

definition MQRC_NO_MSG_AVAILABLE :: nat where
  "MQRC_NO_MSG_AVAILABLE = 2033"

text \<open>\<open>if msg:\<close> of line 147.\<close>

fun truthy :: "pyval \<Rightarrow> bool" where
  "truthy (PyBytes b) = (b \<noteq> [])"
| "truthy (PyStr t) = (t \<noteq> [])"

text \<open>Lines 151-152.\<close>

fun to_text :: "pyval \<Rightarrow> pystr" where
  "to_text (PyBytes b) = decode_utf8_ignore b"
| "to_text (PyStr t) = t"

text \<open>
  The effects of the listener, in the order it performs them. \<open>QueueClose\<close> and
  \<open>Disconnect\<close> stand for \<open>queue.close()\<close> and \<open>qmgr.disconnect()\<close>.
\<close>

datatype action =
    LogInfo string
  | LogError string exn
  | Sleep nat
  | SetStop
  | ConnectTcp "exn + nat"
  | QueueOpen nat "exn + nat"
  | QueueGet nat nat "exn + pyval"
  | SaveMessage pystr
  | TreeWrite xmlfile "exn option"
  | QueueClose nat
  | Disconnect nat

text \<open>
  The state the listener works on: the flag \<open>stop_signal\<close>, the effects so far, and the
  handles of the connections and queues it has acquired and not released.
\<close>

record state =
  stop_signal :: bool
  trace :: "action list"
  next_handle :: nat
  open_handles :: "nat list"

text \<open>
  What the world answers during one pass through a loop head and its body:
  whether the tray thread has set \<open>stop_signal\<close> (\<open>on_exit\<close>, line 55) by the time the loop
  tests it, and the outcome of each call the pass may make.
\<close>

record inputs =
  exit_clicked :: bool
  connect_result :: "exn option"
  queue_result :: "exn option"
  get_result :: "exn + pyval"
  now :: datetime
  write_result :: "exn option"

definition emit :: "action \<Rightarrow> state \<Rightarrow> state" where
  "emit a s = s\<lparr>trace := trace s @ [a]\<rparr>"

definition log_info :: "string \<Rightarrow> state \<Rightarrow> state" where
  "log_info m s = emit (LogInfo m) s"

definition log_error :: "string \<Rightarrow> exn \<Rightarrow> state \<Rightarrow> state" where
  "log_error m e s = emit (LogError m e) s"

definition sleep :: "nat \<Rightarrow> state \<Rightarrow> state" where
  "sleep n s = emit (Sleep n) s"

text \<open>\<open>stop_signal.set()\<close> (line 158) and \<open>stop_signal.is_set()\<close> (lines 134 and 144).\<close>

definition set_stop :: "state \<Rightarrow> state" where
  "set_stop s = emit SetStop (s\<lparr>stop_signal := True\<rparr>)"

definition observe_stop :: "inputs \<Rightarrow> state \<Rightarrow> state" where
  "observe_stop i s = s\<lparr>stop_signal := stop_signal s \<or> exit_clicked i\<rparr>"

text \<open>\<open>save_message\<close> with its effects: the write may raise, and success is logged.\<close>

definition save_message :: "html5 \<Rightarrow> inputs \<Rightarrow> pystr \<Rightarrow> state \<Rightarrow> (exn + unit) \<times> state" where
  "save_message h5 i msg s =
     (let s1 = emit (SaveMessage msg) s;
          file = message_file h5 (now i) msg;
          s2 = emit (TreeWrite file (write_result i)) s1
      in case write_result i of
           Some e \<Rightarrow> (Inl e, s2)
         | None \<Rightarrow> (Inr (), log_info ''Saved clean message to file'' s2))"

text \<open>\<open>connect_to_mq\<close> (lines 107-130): logs the failure and raises it again.\<close>

definition connect_to_mq :: "inputs \<Rightarrow> state \<Rightarrow> (exn + nat) \<times> state" where
  "connect_to_mq i s =
     (case connect_result i of
        None \<Rightarrow>
          (let qmgr = next_handle s;
               s1 = emit (ConnectTcp (Inr qmgr))
                      (s\<lparr>next_handle := qmgr + 1, open_handles := open_handles s @ [qmgr]\<rparr>)
           in (Inr qmgr, log_info ''Connected successfully to MQ.'' s1))
      | Some e \<Rightarrow>
          (let s1 = emit (ConnectTcp (Inl e)) s
           in (Inl e, case e of
                        MQMIError r \<Rightarrow> log_error ''Failed to connect to MQ'' e s1
                      | _ \<Rightarrow> log_error ''General error during MQ connection'' e s1)))"

text \<open>\<open>pymqi.Queue(qmgr, QUEUE_NAME)\<close> (line 137).\<close>

definition open_queue :: "inputs \<Rightarrow> nat \<Rightarrow> state \<Rightarrow> (exn + nat) \<times> state" where
  "open_queue i qmgr s =
     (case queue_result i of
        None \<Rightarrow>
          (let queue = next_handle s
           in (Inr queue, emit (QueueOpen qmgr (Inr queue))
                 (s\<lparr>next_handle := queue + 1, open_handles := open_handles s @ [queue]\<rparr>)))
      | Some e \<Rightarrow> (Inl e, emit (QueueOpen qmgr (Inl e)) s))"

text \<open>The body of the inner \<open>try\<close> (lines 146-158); \<open>WaitInterval\<close> is 10000 ms (line 142).\<close>

definition receive_one :: "html5 \<Rightarrow> inputs \<Rightarrow> nat \<Rightarrow> state \<Rightarrow> (exn + unit) \<times> state" where
  "receive_one h5 i queue s =
     (let s1 = emit (QueueGet queue 10000 (get_result i)) s
      in case get_result i of
           Inl e \<Rightarrow> (Inl e, s1)
         | Inr msg \<Rightarrow>
             if truthy msg then
               (let s2 = log_info ''Received a message.'' s1
                in case save_message h5 i (to_text msg) s2 of
                     (Inl e, s3) \<Rightarrow> (Inl e, s3)
                   | (Inr u, s3) \<Rightarrow> (Inr (), sleep 10 s3))
             else (Inr (), set_stop (log_info ''No more messages available.'' s1)))"

text \<open>
  One pass of the inner loop body with its handler (lines 145-165): back to the loop
  head, \<open>break\<close>, or an exception that the inner handler does not catch.
\<close>

datatype ctl = LoopAgain | Break | Raise exn

definition inner_body :: "html5 \<Rightarrow> inputs \<Rightarrow> nat \<Rightarrow> state \<Rightarrow> ctl \<times> state" where
  "inner_body h5 i queue s =
     (case receive_one h5 i queue s of
        (Inr u, s1) \<Rightarrow> (LoopAgain, s1)
      | (Inl (MQMIError r), s1) \<Rightarrow>
          if r = MQRC_NO_MSG_AVAILABLE
          then (LoopAgain, log_info ''No messages available, retrying...'' s1)
          else (Break, log_error ''Error receiving message'' (MQMIError r) s1)
      | (Inl e, s1) \<Rightarrow> (Raise e, s1))"

text \<open>Lines 170-171.\<close>

definition backoff :: "state \<Rightarrow> state" where
  "backoff s = sleep 10 (log_info ''Retrying connection in 10 seconds...'' s)"

text \<open>
  \<open>listen_to_queue\<close>: control is at the head of the outer loop (line 134) or of the inner
  loop (line 144, with the session's connection and queue). Each pass through a loop head
  takes the next \<open>inputs\<close>; when they run out the listener is still running.
\<close>

datatype pc = OuterLoop | InnerLoop nat nat

datatype result = Returned state | Running pc state

fun listen_to_queue :: "html5 \<Rightarrow> inputs list \<Rightarrow> pc \<Rightarrow> state \<Rightarrow> result" where
  "listen_to_queue h5 [] p s = Running p s"
| "listen_to_queue h5 (i # ins) OuterLoop s =
     (let s0 = observe_stop i s in
      if stop_signal s0 then Returned s0
      else case connect_to_mq i s0 of
             (Inl e, s1) \<Rightarrow> listen_to_queue h5 ins OuterLoop (backoff (log_error ''Listener error'' e s1))
           | (Inr qmgr, s1) \<Rightarrow>
               (case open_queue i qmgr s1 of
                  (Inl e, s2) \<Rightarrow>
                    listen_to_queue h5 ins OuterLoop (backoff (log_error ''Listener error'' e s2))
                | (Inr queue, s2) \<Rightarrow> listen_to_queue h5 ins (InnerLoop qmgr queue) s2))"
| "listen_to_queue h5 (i # ins) (InnerLoop qmgr queue) s =
     (let s0 = observe_stop i s in
      if stop_signal s0 then listen_to_queue h5 ins OuterLoop (backoff s0)
      else case inner_body h5 i queue s0 of
             (LoopAgain, s1) \<Rightarrow> listen_to_queue h5 ins (InnerLoop qmgr queue) s1
           | (Break, s1) \<Rightarrow> listen_to_queue h5 ins OuterLoop (backoff s1)
           | (Raise e, s1) \<Rightarrow>
               listen_to_queue h5 ins OuterLoop (backoff (log_error ''Listener error'' e s1)))"

definition final_state :: "result \<Rightarrow> state" where
  "final_state r = (case r of Returned s \<Rightarrow> s | Running p s \<Rightarrow> s)"

definition init_state :: state where
  "init_state = \<lparr>stop_signal = False, trace = [], next_handle = 0, open_handles = []\<rparr>"

section \<open>Notions of the specification\<close>


text \<open>\<open>sub\<close> starts at position \<open>n\<close> of \<open>s\<close> and at no earlier position.\<close>

definition first_occurrence :: "pystr \<Rightarrow> pystr \<Rightarrow> nat \<Rightarrow> bool" where
  "first_occurrence sub s n \<longleftrightarrow>
     n \<le> length s \<and> prefix sub (drop n s) \<and> (\<forall>k \<in> {0..<n}. \<not> prefix sub (drop k s))"

text \<open>
  A pass of the inner loop in which the wait ends with the broker's
  \<open>MQRC_NO_MSG_AVAILABLE\<close> and the tray thread has not asked to stop.
\<close>

definition transient_empty :: "inputs \<Rightarrow> bool" where
  "transient_empty i \<longleftrightarrow>
     \<not> exit_clicked i \<and> get_result i = Inl (MQMIError MQRC_NO_MSG_AVAILABLE)"

text \<open>What the listener adds to the trace in such a pass.\<close>

definition transient_trace :: "nat \<Rightarrow> action list" where
  "transient_trace queue =
     [QueueGet queue 10000 (Inl (MQMIError MQRC_NO_MSG_AVAILABLE)),
      LogInfo ''No messages available, retrying...'']"

section \<open>Concrete inputs\<close>

definition example_time :: datetime where
  "example_time = \<lparr>dt_year = 2026, dt_month = 3, dt_day = 7, dt_hour = 9, dt_minute = 5,
                   dt_second = 0\<rparr>"

text \<open>A pass in which every call succeeds and the message \<open>b"hi"\<close> arrives.\<close>

definition example_inputs :: inputs where
  "example_inputs = \<lparr>exit_clicked = False, connect_result = None, queue_result = None,
                     get_result = Inr (PyBytes [104, 105]), now = example_time,
                     write_result = None\<rparr>"

text \<open>The state right after the first session has been opened (lines 136-137).\<close>

definition session_state :: state where
  "session_state = \<lparr>stop_signal = False,
     trace = [ConnectTcp (Inr 0), LogInfo ''Connected successfully to MQ.'', QueueOpen 0 (Inr 1)],
     next_handle = 2, open_handles = [0, 1]\<rparr>"

text \<open>The seconds of the \<open>time.sleep\<close> calls of a trace, and the queues of its \<open>queue.get\<close> calls.\<close>

fun sleeps :: "action list \<Rightarrow> nat list" where
  "sleeps [] = []"
| "sleeps (Sleep n # tr) = n # sleeps tr"
| "sleeps (a # tr) = sleeps tr"


text \<open>Where control is when the inputs run out; \<open>None\<close> when the listener has returned.\<close>

definition control :: "result \<Rightarrow> pc option" where
  "control r = (case r of Running p s \<Rightarrow> Some p | Returned s \<Rightarrow> None)"

text \<open>
  A stretch of trace that ends with an error log line, the retry log line and one sleep of
  10 seconds, and holds no other sleep.
\<close>

fun backoff_rev :: "action list \<Rightarrow> bool" where
  "backoff_rev (Sleep n # LogInfo m # LogError m' e # rest) =
     (n = 10 \<and> m = ''Retrying connection in 10 seconds...'' \<and> sleeps rest = [])"
| "backoff_rev tr = False"

definition logged_backoff :: "action list \<Rightarrow> bool" where
  "logged_backoff tr = backoff_rev (rev tr)"

text \<open>
  The failures of a cycle. \<open>open()\<close> fails when the connection or the queue cannot be had.
  The inner \<open>try\<close> raises what \<open>queue.get\<close> raises, or else what the write of a received
  message raises; the pass fails unless that is \<open>MQRC_NO_MSG_AVAILABLE\<close>.
\<close>

definition open_fails :: "inputs \<Rightarrow> bool" where
  "open_fails i \<longleftrightarrow> \<not> exit_clicked i \<and> (connect_result i \<noteq> None \<or> queue_result i \<noteq> None)"

definition open_succeeds :: "inputs \<Rightarrow> bool" where
  "open_succeeds i \<longleftrightarrow> \<not> exit_clicked i \<and> connect_result i = None \<and> queue_result i = None"

definition raised :: "inputs \<Rightarrow> exn option" where
  "raised i = (case get_result i of
                 Inl e \<Rightarrow> Some e
               | Inr v \<Rightarrow> if truthy v then write_result i else None)"

definition receive_fails :: "inputs \<Rightarrow> bool" where
  "receive_fails i \<longleftrightarrow>
     \<not> exit_clicked i
     \<and> (case raised i of Some e \<Rightarrow> e \<noteq> MQMIError MQRC_NO_MSG_AVAILABLE | None \<Rightarrow> False)"

text \<open>A pass that can set \<open>stop_signal\<close>: the tray's exit, or a falsy message.\<close>

definition asks_stop :: "inputs \<Rightarrow> bool" where
  "asks_stop i \<longleftrightarrow>
     exit_clicked i \<or> (case get_result i of Inr v \<Rightarrow> \<not> truthy v | Inl e \<Rightarrow> False)"

text \<open>
  One pass through a loop head and its body, as \<open>listen_to_queue\<close> performs it: the state
  after the pass and where control goes (\<open>None\<close> when the function returns).
\<close>

definition pass :: "html5 \<Rightarrow> inputs \<Rightarrow> pc \<Rightarrow> state \<Rightarrow> pc option \<times> state" where
  "pass h5 i p s =
     (let s0 = observe_stop i s in
      case p of
        OuterLoop \<Rightarrow>
          if stop_signal s0 then (None, s0)
          else (case connect_to_mq i s0 of
                  (Inl e, s1) \<Rightarrow> (Some OuterLoop, backoff (log_error ''Listener error'' e s1))
                | (Inr qmgr, s1) \<Rightarrow>
                    (case open_queue i qmgr s1 of
                       (Inl e, s2) \<Rightarrow>
                         (Some OuterLoop, backoff (log_error ''Listener error'' e s2))
                     | (Inr queue, s2) \<Rightarrow> (Some (InnerLoop qmgr queue), s2)))
      | InnerLoop qmgr queue \<Rightarrow>
          if stop_signal s0 then (Some OuterLoop, backoff s0)
          else (case inner_body h5 i queue s0 of
                  (LoopAgain, s1) \<Rightarrow> (Some (InnerLoop qmgr queue), s1)
                | (Break, s1) \<Rightarrow> (Some OuterLoop, backoff s1)
                | (Raise e, s1) \<Rightarrow>
                    (Some OuterLoop, backoff (log_error ''Listener error'' e s1))))"

text \<open>
  Receives and persist attempts along a trace. A \<open>queue.get\<close> that returns a truthy message
  leaves that message pending; the pending message must be handed to \<open>save_message\<close> before
  the next \<open>queue.get\<close>, and \<open>save_message\<close> may be called on a pending message only.
\<close>

datatype pend = Idle | Pending pystr | Violated

fun persist_step :: "pend \<Rightarrow> action \<Rightarrow> pend" where
  "persist_step Violated a = Violated"
| "persist_step Idle (QueueGet queue w (Inr v)) = (if truthy v then Pending (to_text v) else Idle)"
| "persist_step (Pending m) (QueueGet queue w r) = Violated"
| "persist_step Idle (SaveMessage m) = Violated"
| "persist_step (Pending m) (SaveMessage m') = (if m = m' then Idle else Violated)"
| "persist_step p a = p"

definition persist_check :: "action list \<Rightarrow> pend" where
  "persist_check tr = foldl persist_step Idle tr"

fun received :: "action list \<Rightarrow> pystr list" where
  "received [] = []"
| "received (QueueGet queue w (Inr v) # tr) =
     (if truthy v then to_text v # received tr else received tr)"
| "received (a # tr) = received tr"

fun saves :: "action list \<Rightarrow> pystr list" where
  "saves [] = []"
| "saves (SaveMessage m # tr) = m # saves tr"
| "saves (a # tr) = saves tr"

text \<open>
  Handles along a trace: those acquired (a connection made, a queue opened), those
  released (\<open>queue.close()\<close>, \<open>qmgr.disconnect()\<close>), and whether every \<open>queue.get\<close> is issued on
  the queue that was opened last.
\<close>

fun acquired :: "action list \<Rightarrow> nat list" where
  "acquired [] = []"
| "acquired (ConnectTcp (Inr h) # tr) = h # acquired tr"
| "acquired (QueueOpen qmgr (Inr h) # tr) = h # acquired tr"
| "acquired (a # tr) = acquired tr"

fun releases :: "action list \<Rightarrow> nat list" where
  "releases [] = []"
| "releases (QueueClose h # tr) = h # releases tr"
| "releases (Disconnect h # tr) = h # releases tr"
| "releases (a # tr) = releases tr"

fun last_open :: "nat option \<Rightarrow> action list \<Rightarrow> nat option" where
  "last_open cur [] = cur"
| "last_open cur (QueueOpen qmgr (Inr h) # tr) = last_open (Some h) tr"
| "last_open cur (a # tr) = last_open cur tr"

fun own_queue :: "nat option \<Rightarrow> action list \<Rightarrow> bool" where
  "own_queue cur [] = True"
| "own_queue cur (QueueOpen qmgr (Inr h) # tr) = own_queue (Some h) tr"
| "own_queue cur (QueueGet queue w r # tr) = (cur = Some queue \<and> own_queue cur tr)"
| "own_queue cur (a # tr) = own_queue cur tr"

section \<open>The sanitizer: clean_message and html.unescape\<close>


lemma find_from_none: "find_from sub s i = - 1 \<Longrightarrow> 0 \<le> i \<Longrightarrow> \<not> prefix sub (drop k s)"
proof (induction s arbitrary: i k)
  case Nil
  then show ?case by (auto split: if_splits)
next
  case (Cons c cs)
  then show ?case
    by (cases k) (auto split: if_splits)
qed

lemma find_from_some:
  "find_from sub s i \<noteq> - 1 \<Longrightarrow> 0 \<le> i \<Longrightarrow>
     \<exists>n. find_from sub s i = i + int n \<and> first_occurrence sub s n"
proof (induction s arbitrary: i)
  case Nil
  then show ?case by (auto simp: first_occurrence_def split: if_splits)
next
  case (Cons c cs)
  show ?case
  proof (cases "prefix sub (c # cs)")
    case True
    then show ?thesis by (auto simp: first_occurrence_def intro!: exI[of _ 0])
  next
    case False
    with Cons.prems have "find_from sub cs (i + 1) \<noteq> - 1" "0 \<le> i + 1" by auto
    from Cons.IH[OF this] obtain n where
      n: "find_from sub cs (i + 1) = i + 1 + int n" "first_occurrence sub cs n" by blast
    have "first_occurrence sub (c # cs) (Suc n)"
      using n(2) False unfolding first_occurrence_def
      by (auto simp: less_Suc_eq_0_disj)
    with n(1) False show ?thesis by (auto intro!: exI[of _ "Suc n"])
  qed
qed

lemma first_occurrence_unique:
  "first_occurrence sub s n \<Longrightarrow> first_occurrence sub s n' \<Longrightarrow> n = n'"
  unfolding first_occurrence_def by (metis atLeastLessThan_iff le0 linorder_neqE_nat)

lemma sublist_iff_prefix_drop: "sublist sub s \<longleftrightarrow> (\<exists>k. prefix sub (drop k s))"
proof
  assume "sublist sub s"
  then obtain ps ss where "s = ps @ sub @ ss" by (auto simp: sublist_def)
  then have "prefix sub (drop (length ps) s)" by simp
  then show "\<exists>k. prefix sub (drop k s)" ..
next
  assume "\<exists>k. prefix sub (drop k s)"
  then obtain k ss where "drop k s = sub @ ss" by (auto simp: prefix_def)
  then have "s = take k s @ sub @ ss" by (metis append_take_drop_id)
  then show "sublist sub s" unfolding sublist_def by blast
qed

lemma str_find_none: "str_find s sub = - 1 \<longleftrightarrow> \<not> sublist sub s"
proof
  assume "str_find s sub = - 1"
  then show "\<not> sublist sub s"
    unfolding str_find_def sublist_iff_prefix_drop using find_from_none[of sub s 0] by auto
next
  assume ns: "\<not> sublist sub s"
  show "str_find s sub = - 1"
  proof (rule ccontr)
    assume "str_find s sub \<noteq> - 1"
    then obtain n where "first_occurrence sub s n"
      unfolding str_find_def using find_from_some[of sub s 0] by auto
    then show False using ns unfolding sublist_iff_prefix_drop first_occurrence_def by blast
  qed
qed

lemma str_find_first:
  "first_occurrence sub s n \<Longrightarrow> str_find s sub = int n"
proof -
  assume fo: "first_occurrence sub s n"
  then have "sublist sub s" unfolding sublist_iff_prefix_drop first_occurrence_def by blast
  then have "str_find s sub \<noteq> - 1" by (simp add: str_find_none)
  then obtain n' where n': "str_find s sub = int n'" "first_occurrence sub s n'"
    unfolding str_find_def using find_from_some[of sub s 0] by auto
  with fo show ?thesis using first_occurrence_unique by blast
qed







lemma sanitize_numeric_reference_twice:
  "sanitize h5 (sanitize h5 (ustr ''&#38;#38;'')) \<noteq> sanitize h5 (ustr ''&#38;#38;'')"
  by (simp add: sanitize_def html_unescape_def clean_message_def re_sub_class_def ctrl_class_def
        startswith_def str_find_def ustr_def match_charref_def replace_charref_def
        is_namechar_def is_digit_def is_hexdigit_def opt_semi_def rstrip_semi_def
        int_of_str_def digit_val_def invalid_charrefs_def invalid_codepoints_def)






section \<open>The listener\<close>

lemma observe_stop_id: "\<not> stop_signal s \<Longrightarrow> \<not> exit_clicked i \<Longrightarrow> observe_stop i s = s"
  by (simp add: observe_stop_def)

lemma observe_stop_set: "stop_signal s \<Longrightarrow> observe_stop i s = s"
  by (simp add: observe_stop_def)

lemmas step_defs = inner_body_def receive_one_def save_message_def
  connect_to_mq_def open_queue_def backoff_def sleep_def log_info_def log_error_def
  set_stop_def emit_def Let_def

lemma session_state_reached:
  "listen_to_queue h5 (example_inputs # ins) OuterLoop init_state =
   listen_to_queue h5 ins (InnerLoop 0 1) session_state"
  by (simp add: observe_stop_def step_defs example_inputs_def init_state_def session_state_def
      numeral_2_eq_2)

text \<open>
  Claim C1. When \<open>queue.get\<close> returns a falsy message (no message, no error) in a pass of
  the inner loop, the listener sets \<open>stop_signal\<close>, leaves the inner loop at its next
  test, logs and sleeps once (lines 170-171) and returns at the test of the outer loop:
  the only \<open>queue.get\<close> it issues from then on is the one that returned nothing.
\<close>

theorem no_message_stops:
  assumes "\<not> stop_signal s" and "\<not> exit_clicked i" and "get_result i = Inr v" and "\<not> truthy v"
  shows "listen_to_queue h5 (i # i2 # i3 # ins) (InnerLoop qmgr queue) s =
           Returned (s\<lparr>stop_signal := True,
                       trace := trace s @ [QueueGet queue 10000 (Inr v),
                                           LogInfo ''No more messages available.'', SetStop,
                                           LogInfo ''Retrying connection in 10 seconds...'',
                                           Sleep 10]\<rparr>)"
  using assms by (simp add: observe_stop_id observe_stop_set step_defs)

theorem no_message_stops_witness:
  "\<not> stop_signal session_state
   \<and> \<not> exit_clicked (example_inputs\<lparr>get_result := Inr (PyBytes [])\<rparr>)
   \<and> \<not> truthy (PyBytes [])
   \<and> listen_to_queue html5_fragment
       [example_inputs\<lparr>get_result := Inr (PyBytes [])\<rparr>, example_inputs, example_inputs]
       (InnerLoop 0 1) session_state =
     Returned \<lparr>stop_signal = True,
       trace = [ConnectTcp (Inr 0), LogInfo ''Connected successfully to MQ.'', QueueOpen 0 (Inr 1),
                QueueGet 1 10000 (Inr (PyBytes [])), LogInfo ''No more messages available.'',
                SetStop, LogInfo ''Retrying connection in 10 seconds...'', Sleep 10],
       next_handle = 2, open_handles = [0, 1]\<rparr>"
  using no_message_stops[of session_state "example_inputs\<lparr>get_result := Inr (PyBytes [])\<rparr>"
      "PyBytes []" html5_fragment example_inputs example_inputs "[]" 0 1]
  by (simp add: session_state_def example_inputs_def)

lemma transient_empty_step:
  assumes "\<not> stop_signal s" and "transient_empty i"
  shows "listen_to_queue h5 (i # ins) (InnerLoop qmgr queue) s =
         listen_to_queue h5 ins (InnerLoop qmgr queue)
           (s\<lparr>trace := trace s @ transient_trace queue\<rparr>)"
  using assms by (simp add: observe_stop_id step_defs transient_empty_def transient_trace_def)

lemma transient_empty_run:
  assumes "\<not> stop_signal s" and "list_all transient_empty ts"
  shows "listen_to_queue h5 (ts @ ins) (InnerLoop qmgr queue) s =
         listen_to_queue h5 ins (InnerLoop qmgr queue)
           (s\<lparr>trace := trace s @ concat (map (\<lambda>i. transient_trace queue) ts)\<rparr>)"
  using assms
proof (induction ts arbitrary: s)
  case Nil
  then show ?case by simp
next
  case (Cons t ts)
  let ?s1 = "s\<lparr>trace := trace s @ transient_trace queue\<rparr>"
  have "listen_to_queue h5 ((t # ts) @ ins) (InnerLoop qmgr queue) s =
        listen_to_queue h5 (ts @ ins) (InnerLoop qmgr queue) ?s1"
    using transient_empty_step[of s t h5 "ts @ ins" qmgr queue] Cons.prems by simp
  also have "\<dots> = listen_to_queue h5 ins (InnerLoop qmgr queue)
      (?s1\<lparr>trace := trace ?s1 @ concat (map (\<lambda>i. transient_trace queue) ts)\<rparr>)"
    using Cons.IH[of ?s1] Cons.prems by simp
  finally show ?case by simp
qed

lemma inner_pass_starts_with_get:
  assumes "\<not> stop_signal s" and "\<not> exit_clicked i"
  shows "prefix (trace s @ [QueueGet queue 10000 (get_result i)])
           (trace (final_state (listen_to_queue h5 [i] (InnerLoop qmgr queue) s)))"
  using assms
  by (auto simp: observe_stop_id step_defs final_state_def
      split: sum.splits exn.splits option.splits)

text \<open>
  Claim C4. Passes of the inner loop that end with \<open>MQRC_NO_MSG_AVAILABLE\<close> leave the
  listener at the head of the inner loop with the same connection and queue; each adds
  the \<open>queue.get\<close> and one log line to the trace and nothing else, so no sleep is
  performed; and when the flag is still unset at the next test, the very next effect is
  the next \<open>queue.get\<close> on the same queue.
\<close>

theorem transient_empty_retries:
  assumes "\<not> stop_signal s" and "list_all transient_empty ts"
  shows "listen_to_queue h5 (ts @ ins) (InnerLoop qmgr queue) s =
           listen_to_queue h5 ins (InnerLoop qmgr queue)
             (s\<lparr>trace := trace s @ concat (map (\<lambda>i. transient_trace queue) ts)\<rparr>)
         \<and> (\<not> exit_clicked i2 \<longrightarrow>
             prefix (trace s @ concat (map (\<lambda>i. transient_trace queue) ts)
                       @ [QueueGet queue 10000 (get_result i2)])
               (trace (final_state (listen_to_queue h5 (ts @ [i2]) (InnerLoop qmgr queue) s))))"
proof (intro conjI impI)
  show "listen_to_queue h5 (ts @ ins) (InnerLoop qmgr queue) s =
           listen_to_queue h5 ins (InnerLoop qmgr queue)
             (s\<lparr>trace := trace s @ concat (map (\<lambda>i. transient_trace queue) ts)\<rparr>)"
    by (rule transient_empty_run[OF assms])
next
  assume i2: "\<not> exit_clicked i2"
  let ?s1 = "s\<lparr>trace := trace s @ concat (map (\<lambda>i. transient_trace queue) ts)\<rparr>"
  have "\<not> stop_signal ?s1" using assms(1) by simp
  from inner_pass_starts_with_get[OF this i2, of queue h5 qmgr]
  show "prefix (trace s @ concat (map (\<lambda>i. transient_trace queue) ts)
                       @ [QueueGet queue 10000 (get_result i2)])
               (trace (final_state (listen_to_queue h5 (ts @ [i2]) (InnerLoop qmgr queue) s)))"
    unfolding transient_empty_run[OF assms, of h5 "[i2]" qmgr queue] by simp
qed

theorem transient_empty_retries_witness:
  "\<not> stop_signal session_state
   \<and> list_all transient_empty
       [example_inputs\<lparr>get_result := Inl (MQMIError 2033)\<rparr>,
        example_inputs\<lparr>get_result := Inl (MQMIError 2033)\<rparr>]
   \<and> \<not> exit_clicked example_inputs
   \<and> listen_to_queue html5_fragment
       ([example_inputs\<lparr>get_result := Inl (MQMIError 2033)\<rparr>,
         example_inputs\<lparr>get_result := Inl (MQMIError 2033)\<rparr>] @ [])
       (InnerLoop 0 1) session_state =
     Running (InnerLoop 0 1)
       (session_state\<lparr>trace := trace session_state @
          [QueueGet 1 10000 (Inl (MQMIError 2033)), LogInfo ''No messages available, retrying...'',
           QueueGet 1 10000 (Inl (MQMIError 2033)), LogInfo ''No messages available, retrying...'']\<rparr>)
   \<and> prefix (trace session_state @
          [QueueGet 1 10000 (Inl (MQMIError 2033)), LogInfo ''No messages available, retrying...'',
           QueueGet 1 10000 (Inl (MQMIError 2033)), LogInfo ''No messages available, retrying...'',
           QueueGet 1 10000 (Inr (PyBytes [104, 105]))])
        (trace (final_state (listen_to_queue html5_fragment
           ([example_inputs\<lparr>get_result := Inl (MQMIError 2033)\<rparr>,
             example_inputs\<lparr>get_result := Inl (MQMIError 2033)\<rparr>] @ [example_inputs])
           (InnerLoop 0 1) session_state)))"
proof -
  let ?t = "example_inputs\<lparr>get_result := Inl (MQMIError 2033)\<rparr>"
  have a: "\<not> stop_signal session_state" by (simp add: session_state_def)
  have b: "list_all transient_empty [?t, ?t]"
    by (simp add: transient_empty_def example_inputs_def MQRC_NO_MSG_AVAILABLE_def)
  have c: "\<not> exit_clicked example_inputs" by (simp add: example_inputs_def)
  have g: "get_result example_inputs = Inr (PyBytes [104, 105])" by (simp add: example_inputs_def)
  from transient_empty_retries[OF a b, of html5_fragment "[]" 0 1 example_inputs] c
  show ?thesis using a b
    by (simp add: transient_trace_def MQRC_NO_MSG_AVAILABLE_def g)
qed
section \<open>Failures and the backoff\<close>

lemma sleeps_append: "sleeps (a @ b) = sleeps a @ sleeps b"
  by (induction a rule: sleeps.induct) simp_all

lemma open_fails_step:
  assumes "\<not> stop_signal s" and "open_fails i"
  shows "\<exists>s'. (\<forall>ins. listen_to_queue h5 (i # ins) OuterLoop s = listen_to_queue h5 ins OuterLoop s')
            \<and> \<not> stop_signal s' \<and> length (trace s) \<le> length (trace s')
            \<and> take (length (trace s)) (trace s') = trace s
            \<and> logged_backoff (drop (length (trace s)) (trace s'))"
proof -
  have nc: "\<not> exit_clicked i" using assms(2) by (simp add: open_fails_def)
  show ?thesis
  proof (cases "connect_result i")
    case (Some e)
    show ?thesis
      by (rule exI[of _ "backoff (log_error ''Listener error'' e (snd (connect_to_mq i s)))"])
        (use Some assms(1) nc in \<open>auto simp: observe_stop_id step_defs logged_backoff_def split: exn.splits\<close>)
  next
    case None
    then obtain e where e: "queue_result i = Some e" using assms(2) by (auto simp: open_fails_def)
    show ?thesis
      by (rule exI[of _ "backoff (log_error ''Listener error'' e
              (snd (open_queue i (next_handle s) (snd (connect_to_mq i s)))))"])
        (use None e assms(1) nc in \<open>auto simp: observe_stop_id step_defs logged_backoff_def\<close>)
  qed
qed

lemma receive_fails_step:
  assumes "\<not> stop_signal s" and "receive_fails i"
  shows "\<exists>s'. (\<forall>ins. listen_to_queue h5 (i # ins) (InnerLoop qmgr queue) s
                      = listen_to_queue h5 ins OuterLoop s')
            \<and> \<not> stop_signal s'
            \<and> take (length (trace s)) (trace s') = trace s
            \<and> logged_backoff (drop (length (trace s)) (trace s'))"
proof -
  have nc: "\<not> exit_clicked i" using assms(2) by (simp add: receive_fails_def)
  obtain e where e: "raised i = Some e" "e \<noteq> MQMIError MQRC_NO_MSG_AVAILABLE"
    using assms(2) by (auto simp: receive_fails_def split: option.splits)
  let ?s' = "backoff (case inner_body h5 i queue s of
                        (Raise x, s1) \<Rightarrow> log_error ''Listener error'' x s1
                      | (c, s1) \<Rightarrow> s1)"
  show ?thesis
    by (rule exI[of _ ?s'])
      (use e assms(1) nc in \<open>auto simp: observe_stop_id step_defs logged_backoff_def raised_def
          split: sum.splits exn.splits if_splits option.splits\<close>)
qed

lemma sleeps_rev: "sleeps (rev tr) = rev (sleeps tr)"
  by (induction tr rule: sleeps.induct) (simp_all add: sleeps_append)

lemma backoff_rev_sleeps: "backoff_rev r \<Longrightarrow> sleeps r = [10]"
  by (induction r rule: backoff_rev.induct) simp_all

lemma logged_backoff_sleeps: "logged_backoff tr \<Longrightarrow> sleeps tr = [10]"
  using backoff_rev_sleeps[of "rev tr"] by (simp add: logged_backoff_def sleeps_rev)

lemma open_fails_run:
  assumes "list_all open_fails fs" and "\<not> stop_signal s"
  shows "\<exists>s'. (\<forall>ins. listen_to_queue h5 (fs @ ins) OuterLoop s = listen_to_queue h5 ins OuterLoop s')
            \<and> \<not> stop_signal s' \<and> length (trace s) \<le> length (trace s')
            \<and> take (length (trace s)) (trace s') = trace s
            \<and> sleeps (drop (length (trace s)) (trace s')) = replicate (length fs) 10"
  using assms
proof (induction fs arbitrary: s)
  case Nil
  show ?case by (rule exI[of _ s]) (use Nil in simp)
next
  case (Cons i fs)
  from Cons.prems have i: "open_fails i" and fs: "list_all open_fails fs" by simp_all
  from open_fails_step[OF Cons.prems(2) i, of h5] obtain s1 where
    st: "\<And>ins. listen_to_queue h5 (i # ins) OuterLoop s = listen_to_queue h5 ins OuterLoop s1"
    and ns: "\<not> stop_signal s1" and le: "length (trace s) \<le> length (trace s1)"
    and tk: "take (length (trace s)) (trace s1) = trace s"
    and lb: "logged_backoff (drop (length (trace s)) (trace s1))" by blast
  from Cons.IH[OF fs ns] obtain s2 where
    st2: "\<And>ins. listen_to_queue h5 (fs @ ins) OuterLoop s1 = listen_to_queue h5 ins OuterLoop s2"
    and ns2: "\<not> stop_signal s2" and le2: "length (trace s1) \<le> length (trace s2)"
    and tk2: "take (length (trace s1)) (trace s2) = trace s1"
    and sl2: "sleeps (drop (length (trace s1)) (trace s2)) = replicate (length fs) 10" by blast
  obtain a where a: "trace s1 = trace s @ a"
    using tk by (metis append_take_drop_id)
  obtain b where b: "trace s2 = trace s1 @ b"
    using tk2 by (metis append_take_drop_id)
  have sa: "sleeps a = [10]" using lb a by (simp add: logged_backoff_sleeps)
  have sb: "sleeps b = replicate (length fs) 10" using sl2 b by simp
  show ?case
    by (rule exI[of _ s2])
      (use st st2 ns2 a b sa sb in \<open>simp add: sleeps_append\<close>)
qed

lemma open_succeeds_step:
  assumes "\<not> stop_signal s" and "open_succeeds i"
  shows "listen_to_queue h5 (i # ins) OuterLoop s =
         listen_to_queue h5 ins (InnerLoop (next_handle s) (next_handle s + 1))
           (s\<lparr>next_handle := next_handle s + 2,
              open_handles := open_handles s @ [next_handle s, next_handle s + 1],
              trace := trace s @ [ConnectTcp (Inr (next_handle s)),
                  LogInfo ''Connected successfully to MQ.'',
                  QueueOpen (next_handle s) (Inr (next_handle s + 1))]\<rparr>)"
  using assms by (simp add: open_succeeds_def observe_stop_id step_defs numeral_2_eq_2)

lemma returned_stop: "listen_to_queue h5 ins p s = Returned s' \<Longrightarrow> stop_signal s'"
  by (induction h5 ins p s rule: listen_to_queue.induct)
    (auto simp: Let_def split: if_splits prod.splits sum.splits ctl.splits)

lemma quiet_step:
  assumes "\<not> stop_signal s" and "\<not> asks_stop i"
  shows "\<exists>p' s'. (\<forall>ins. listen_to_queue h5 (i # ins) p s = listen_to_queue h5 ins p' s')
            \<and> \<not> stop_signal s'"
proof -
  have nc: "\<not> exit_clicked i" using assms(2) by (simp add: asks_stop_def)
  have os: "observe_stop i s = s" using assms(1) nc by (rule observe_stop_id)
  show ?thesis
  proof (cases p)
    case OuterLoop
    show ?thesis unfolding OuterLoop
      using assms(1) os
      by (cases "connect_result i"; cases "queue_result i")
        (auto simp: step_defs split: exn.splits intro!: exI)
  next
    case (InnerLoop qmgr queue)
    have ib: "\<not> stop_signal (snd (inner_body h5 i queue s))"
      using assms by (auto simp: asks_stop_def step_defs split: sum.splits exn.splits option.splits)
    show ?thesis unfolding InnerLoop
      using assms(1) os ib
      by (cases "inner_body h5 i queue s"; cases "fst (inner_body h5 i queue s)")
        (auto simp: backoff_def sleep_def log_info_def log_error_def emit_def intro!: exI)
  qed
qed

lemma quiet_run:
  assumes "\<not> stop_signal s" and "list_all (\<lambda>i. \<not> asks_stop i) ins"
  shows "\<exists>p' s'. listen_to_queue h5 ins p s = Running p' s' \<and> \<not> stop_signal s'"
  using assms
proof (induction ins arbitrary: p s)
  case Nil
  then show ?case by simp
next
  case (Cons i ins)
  from Cons.prems have i: "\<not> asks_stop i" and r: "list_all (\<lambda>i. \<not> asks_stop i) ins" by simp_all
  from quiet_step[OF Cons.prems(1) i, of h5 p] obtain p1 s1 where
    st: "\<And>ins. listen_to_queue h5 (i # ins) p s = listen_to_queue h5 ins p1 s1"
    and ns: "\<not> stop_signal s1" by blast
  from Cons.IH[OF ns r, of p1] show ?case by (simp add: st)
qed




text \<open>
  Claim C9. From a state with \<open>stop_signal\<close> unset: a pass in which the connection or the
  queue open fails, and a pass of the inner loop in which \<open>queue.get\<close> or the write raises
  anything but \<open>MQRC_NO_MSG_AVAILABLE\<close>, both continue at the head of the outer loop with the
  flag still unset, after extending the trace by a stretch that ends with an error log
  line, the retry log line and \<open>time.sleep(10)\<close> and holds no other sleep; \<open>N\<close> failing opens
  followed by a successful one reach the inner loop after exactly \<open>N\<close> sleeps of 10 seconds;
  a run in which no pass sets the flag is still running when its inputs end; and whenever
  the listener returns, \<open>stop_signal\<close> is set.
\<close>

theorem failures_back_off:
  assumes "\<not> stop_signal s"
  shows "(open_fails i \<longrightarrow>
            (\<exists>s'. (\<forall>ins. listen_to_queue h5 (i # ins) OuterLoop s
                          = listen_to_queue h5 ins OuterLoop s')
                 \<and> \<not> stop_signal s'
                 \<and> take (length (trace s)) (trace s') = trace s
                 \<and> logged_backoff (drop (length (trace s)) (trace s'))))
       \<and> (receive_fails i \<longrightarrow>
            (\<exists>s'. (\<forall>ins. listen_to_queue h5 (i # ins) (InnerLoop qmgr queue) s
                          = listen_to_queue h5 ins OuterLoop s')
                 \<and> \<not> stop_signal s'
                 \<and> take (length (trace s)) (trace s') = trace s
                 \<and> logged_backoff (drop (length (trace s)) (trace s'))))
       \<and> (list_all open_fails fs \<and> open_succeeds ok \<longrightarrow>
            (\<exists>qm q s'. (\<forall>ins. listen_to_queue h5 (fs @ ok # ins) OuterLoop s
                               = listen_to_queue h5 ins (InnerLoop qm q) s')
                 \<and> \<not> stop_signal s'
                 \<and> take (length (trace s)) (trace s') = trace s
                 \<and> sleeps (drop (length (trace s)) (trace s')) = replicate (length fs) 10))
       \<and> (list_all (\<lambda>i. \<not> asks_stop i) ins \<longrightarrow>
            (\<exists>p' s'. listen_to_queue h5 ins p s = Running p' s' \<and> \<not> stop_signal s'))
       \<and> (\<forall>s0 s'. listen_to_queue h5 ins p s0 = Returned s' \<longrightarrow> stop_signal s')"
proof (intro conjI impI allI)
  assume "open_fails i"
  from open_fails_step[OF assms this, of h5]
  show "\<exists>s'. (\<forall>ins. listen_to_queue h5 (i # ins) OuterLoop s = listen_to_queue h5 ins OuterLoop s')
            \<and> \<not> stop_signal s' \<and> take (length (trace s)) (trace s') = trace s
            \<and> logged_backoff (drop (length (trace s)) (trace s'))"
    by blast
next
  assume "receive_fails i"
  from receive_fails_step[OF assms this]
  show "\<exists>s'. (\<forall>ins. listen_to_queue h5 (i # ins) (InnerLoop qmgr queue) s
                      = listen_to_queue h5 ins OuterLoop s')
            \<and> \<not> stop_signal s' \<and> take (length (trace s)) (trace s') = trace s
            \<and> logged_backoff (drop (length (trace s)) (trace s'))" .
next
  assume a: "list_all open_fails fs \<and> open_succeeds ok"
  from open_fails_run[OF conjunct1[OF a] assms, of h5] obtain s1 where
    st: "\<And>ins. listen_to_queue h5 (fs @ ins) OuterLoop s = listen_to_queue h5 ins OuterLoop s1"
    and ns: "\<not> stop_signal s1"
    and tk: "take (length (trace s)) (trace s1) = trace s"
    and sl: "sleeps (drop (length (trace s)) (trace s1)) = replicate (length fs) 10" by blast
  obtain a1 where a1: "trace s1 = trace s @ a1" using tk by (metis append_take_drop_id)
  let ?s2 = "s1\<lparr>next_handle := next_handle s1 + 2,
              open_handles := open_handles s1 @ [next_handle s1, next_handle s1 + 1],
              trace := trace s1 @ [ConnectTcp (Inr (next_handle s1)),
                  LogInfo ''Connected successfully to MQ.'',
                  QueueOpen (next_handle s1) (Inr (next_handle s1 + 1))]\<rparr>"
  have "(\<forall>ins. listen_to_queue h5 (fs @ ok # ins) OuterLoop s
               = listen_to_queue h5 ins (InnerLoop (next_handle s1) (next_handle s1 + 1)) ?s2)
        \<and> \<not> stop_signal ?s2 \<and> take (length (trace s)) (trace ?s2) = trace s
        \<and> sleeps (drop (length (trace s)) (trace ?s2)) = replicate (length fs) 10"
    using st open_succeeds_step[OF ns conjunct2[OF a], of h5] ns a1 sl
    by (simp add: sleeps_append)
  then show "\<exists>qm q s'. (\<forall>ins. listen_to_queue h5 (fs @ ok # ins) OuterLoop s
                               = listen_to_queue h5 ins (InnerLoop qm q) s')
                 \<and> \<not> stop_signal s'
                 \<and> take (length (trace s)) (trace s') = trace s
                 \<and> sleeps (drop (length (trace s)) (trace s')) = replicate (length fs) 10"
    by blast
next
  assume "list_all (\<lambda>i. \<not> asks_stop i) ins"
  from quiet_run[OF assms this]
  show "\<exists>p' s'. listen_to_queue h5 ins p s = Running p' s' \<and> \<not> stop_signal s'" .
next
  fix s0 s'
  assume "listen_to_queue h5 ins p s0 = Returned s'"
  then show "stop_signal s'" by (rule returned_stop)
qed

theorem failures_back_off_witness:
  "\<not> stop_signal session_state
   \<and> open_fails (example_inputs\<lparr>connect_result := Some (MQMIError 2538),
                                get_result := Inl (MQMIError 2009)\<rparr>)
   \<and> receive_fails (example_inputs\<lparr>connect_result := Some (MQMIError 2538),
                                   get_result := Inl (MQMIError 2009)\<rparr>)
   \<and> list_all open_fails
        [example_inputs\<lparr>connect_result := Some OtherException\<rparr>,
         example_inputs\<lparr>queue_result := Some (MQMIError 2085)\<rparr>]
   \<and> open_succeeds example_inputs
   \<and> list_all (\<lambda>i. \<not> asks_stop i)
        [example_inputs\<lparr>write_result := Some OSError\<rparr>, example_inputs]
   \<and> listen_to_queue html5_fragment
        [example_inputs\<lparr>write_result := Some OSError\<rparr>, example_inputs] OuterLoop
        (session_state\<lparr>stop_signal := True\<rparr>) = Returned (session_state\<lparr>stop_signal := True\<rparr>)
   \<and> stop_signal (session_state\<lparr>stop_signal := True\<rparr>)
   \<and> (\<exists>s'. (\<forall>ins. listen_to_queue html5_fragment
                      (example_inputs\<lparr>connect_result := Some (MQMIError 2538),
                                      get_result := Inl (MQMIError 2009)\<rparr> # ins)
                      OuterLoop session_state
                    = listen_to_queue html5_fragment ins OuterLoop s')
           \<and> \<not> stop_signal s'
           \<and> take (length (trace session_state)) (trace s') = trace session_state
           \<and> logged_backoff (drop (length (trace session_state)) (trace s')))
   \<and> (\<exists>s'. (\<forall>ins. listen_to_queue html5_fragment
                      (example_inputs\<lparr>connect_result := Some (MQMIError 2538),
                                      get_result := Inl (MQMIError 2009)\<rparr> # ins)
                      (InnerLoop 0 1) session_state
                    = listen_to_queue html5_fragment ins OuterLoop s')
           \<and> \<not> stop_signal s'
           \<and> take (length (trace session_state)) (trace s') = trace session_state
           \<and> logged_backoff (drop (length (trace session_state)) (trace s')))
   \<and> (\<exists>qm q s'. (\<forall>ins. listen_to_queue html5_fragment
                      ([example_inputs\<lparr>connect_result := Some OtherException\<rparr>,
                        example_inputs\<lparr>queue_result := Some (MQMIError 2085)\<rparr>]
                       @ example_inputs # ins)
                      OuterLoop session_state
                    = listen_to_queue html5_fragment ins (InnerLoop qm q) s')
           \<and> \<not> stop_signal s'
           \<and> take (length (trace session_state)) (trace s') = trace session_state
           \<and> sleeps (drop (length (trace session_state)) (trace s')) = [10, 10])
   \<and> (\<exists>p' s'. listen_to_queue html5_fragment
                  [example_inputs\<lparr>write_result := Some OSError\<rparr>, example_inputs]
                  OuterLoop session_state = Running p' s'
             \<and> \<not> stop_signal s')"
proof -
  let ?i = "example_inputs\<lparr>connect_result := Some (MQMIError 2538),
                            get_result := Inl (MQMIError 2009)\<rparr>"
  let ?fs = "[example_inputs\<lparr>connect_result := Some OtherException\<rparr>,
              example_inputs\<lparr>queue_result := Some (MQMIError 2085)\<rparr>]"
  let ?ins = "[example_inputs\<lparr>write_result := Some OSError\<rparr>, example_inputs]"
  have a: "\<not> stop_signal session_state" by (simp add: session_state_def)
  have b: "open_fails ?i" by (simp add: open_fails_def example_inputs_def)
  have c: "receive_fails ?i"
    by (simp add: receive_fails_def raised_def example_inputs_def MQRC_NO_MSG_AVAILABLE_def)
  have d: "list_all open_fails ?fs" by (simp add: open_fails_def example_inputs_def)
  have e: "open_succeeds example_inputs" by (simp add: open_succeeds_def example_inputs_def)
  have f: "list_all (\<lambda>i. \<not> asks_stop i) ?ins" by (simp add: asks_stop_def example_inputs_def)
  have g: "listen_to_queue html5_fragment ?ins OuterLoop (session_state\<lparr>stop_signal := True\<rparr>)
           = Returned (session_state\<lparr>stop_signal := True\<rparr>)"
    by (simp add: observe_stop_def)
  note T = failures_back_off[OF a, of ?i html5_fragment 0 1 ?fs example_inputs ?ins OuterLoop]
  have t1: "\<exists>s'. (\<forall>ins. listen_to_queue html5_fragment (?i # ins) OuterLoop session_state
                    = listen_to_queue html5_fragment ins OuterLoop s')
           \<and> \<not> stop_signal s'
           \<and> take (length (trace session_state)) (trace s') = trace session_state
           \<and> logged_backoff (drop (length (trace session_state)) (trace s'))"
    using T[THEN conjunct1] b by (rule mp)
  have t2: "\<exists>s'. (\<forall>ins. listen_to_queue html5_fragment (?i # ins) (InnerLoop 0 1) session_state
                    = listen_to_queue html5_fragment ins OuterLoop s')
           \<and> \<not> stop_signal s'
           \<and> take (length (trace session_state)) (trace s') = trace session_state
           \<and> logged_backoff (drop (length (trace session_state)) (trace s'))"
    using T[THEN conjunct2, THEN conjunct1] c by (rule mp)
  have l: "replicate (length ?fs) (10::nat) = [10, 10]" by (simp add: numeral_2_eq_2)
  have t3: "\<exists>qm q s'. (\<forall>ins. listen_to_queue html5_fragment (?fs @ example_inputs # ins)
                      OuterLoop session_state
                    = listen_to_queue html5_fragment ins (InnerLoop qm q) s')
           \<and> \<not> stop_signal s'
           \<and> take (length (trace session_state)) (trace s') = trace session_state
           \<and> sleeps (drop (length (trace session_state)) (trace s')) = [10, 10]"
    using T[THEN conjunct2, THEN conjunct2, THEN conjunct1] conjI[OF d e]
    unfolding l by (rule mp)
  have t4: "\<exists>p' s'. listen_to_queue html5_fragment ?ins OuterLoop session_state = Running p' s'
             \<and> \<not> stop_signal s'"
    using T[THEN conjunct2, THEN conjunct2, THEN conjunct2, THEN conjunct1] f by (rule mp)
  have t5: "stop_signal (session_state\<lparr>stop_signal := True\<rparr>)" 
    using T[THEN conjunct2, THEN conjunct2, THEN conjunct2, THEN conjunct2, rule_format, OF g] .
  show ?thesis
    by (intro conjI) (rule a b c d e f g t1 t2 t3 t4 t5)+
qed
section \<open>Invariants of the listener\<close>

lemma listen_pass:
  "listen_to_queue h5 (i # ins) p s =
     (case pass h5 i p s of
        (None, s') \<Rightarrow> Returned s'
      | (Some p', s') \<Rightarrow> listen_to_queue h5 ins p' s')"
  by (cases p) (auto simp: pass_def Let_def split: prod.splits sum.splits ctl.splits)

lemma listen_invariant:
  assumes "I p s"
    and "\<And>i p s p' s'. I p s \<Longrightarrow> pass h5 i p s = (Some p', s') \<Longrightarrow> I p' s'"
    and "\<And>i p s s'. I p s \<Longrightarrow> pass h5 i p s = (None, s') \<Longrightarrow> Q s'"
    and "\<And>p s. I p s \<Longrightarrow> Q s"
  shows "Q (final_state (listen_to_queue h5 ins p s))"
  using assms(1)
proof (induction ins arbitrary: p s)
  case Nil
  then show ?case by (simp add: final_state_def assms(4))
next
  case (Cons i ins)
  show ?case
  proof (cases "pass h5 i p s")
    case (Pair c s')
    show ?thesis
    proof (cases c)
      case None
      then show ?thesis using Pair assms(3)[OF Cons.prems] by (simp add: listen_pass final_state_def)
    next
      case (Some p')
      then have "I p' s'" using assms(2)[OF Cons.prems] Pair by simp
      from Cons.IH[OF this] show ?thesis using Pair Some by (simp add: listen_pass)
    qed
  qed
qed

lemma persist_check_append:
  "persist_check (a @ b) = foldl persist_step (persist_check a) b"
  by (simp add: persist_check_def)

lemma received_append: "received (a @ b) = received a @ received b"
  by (induction a rule: received.induct) simp_all

lemma saves_append: "saves (a @ b) = saves a @ saves b"
  by (induction a rule: saves.induct) simp_all

lemma pass_persist:
  assumes "persist_check (trace s) = Idle \<and> saves (trace s) = received (trace s)"
  shows "persist_check (trace (snd (pass h5 i p s))) = Idle
         \<and> saves (trace (snd (pass h5 i p s))) = received (trace (snd (pass h5 i p s)))"
  using assms
  by (cases p)
    (auto simp: pass_def observe_stop_def step_defs persist_check_append
      received_append saves_append
      split: option.splits sum.splits exn.splits)

text \<open>
  Claim C2. Along every run of the listener the trace obeys the discipline of
  \<open>persist_step\<close>: a \<open>queue.get\<close> that returned a truthy message is followed by the call of
  \<open>save_message\<close> on that message (decoded) before any other \<open>queue.get\<close>, and \<open>save_message\<close>
  is called on nothing else; at every loop head nothing is pending, and the messages
  handed to \<open>save_message\<close> are exactly the messages received, in order, each once.
\<close>

theorem one_persist_per_receive:
  assumes "persist_check (trace s) = Idle" and "saves (trace s) = received (trace s)"
  shows "persist_check (trace (final_state (listen_to_queue h5 ins p s))) = Idle
         \<and> saves (trace (final_state (listen_to_queue h5 ins p s)))
             = received (trace (final_state (listen_to_queue h5 ins p s)))"
proof (rule listen_invariant[where I = "\<lambda>p s. persist_check (trace s) = Idle
                                          \<and> saves (trace s) = received (trace s)"])
  show "persist_check (trace s) = Idle \<and> saves (trace s) = received (trace s)"
    using assms by simp
next
  fix i p s p' s'
  assume "persist_check (trace s) = Idle \<and> saves (trace s) = received (trace s)"
    and "pass h5 i p s = (Some p', s')"
  then show "persist_check (trace s') = Idle \<and> saves (trace s') = received (trace s')"
    using pass_persist[of s h5 i p] by simp
next
  fix i p s s'
  assume "persist_check (trace s) = Idle \<and> saves (trace s) = received (trace s)"
    and "pass h5 i p s = (None, s')"
  then show "persist_check (trace s') = Idle \<and> saves (trace s') = received (trace s')"
    using pass_persist[of s h5 i p] by simp
qed simp

theorem one_persist_per_receive_witness:
  "persist_check (trace init_state) = Idle
   \<and> saves (trace init_state) = received (trace init_state)
   \<and> persist_check (trace (final_state (listen_to_queue html5_fragment
         [example_inputs, example_inputs, example_inputs\<lparr>write_result := Some OSError\<rparr>,
          example_inputs, example_inputs, example_inputs\<lparr>get_result := Inr (PyBytes [])\<rparr>]
         OuterLoop init_state))) = Idle
   \<and> saves (trace (final_state (listen_to_queue html5_fragment
         [example_inputs, example_inputs, example_inputs\<lparr>write_result := Some OSError\<rparr>,
          example_inputs, example_inputs, example_inputs\<lparr>get_result := Inr (PyBytes [])\<rparr>]
         OuterLoop init_state)))
     = received (trace (final_state (listen_to_queue html5_fragment
         [example_inputs, example_inputs, example_inputs\<lparr>write_result := Some OSError\<rparr>,
          example_inputs, example_inputs, example_inputs\<lparr>get_result := Inr (PyBytes [])\<rparr>]
         OuterLoop init_state)))
   \<and> saves (trace (final_state (listen_to_queue html5_fragment
         [example_inputs, example_inputs, example_inputs\<lparr>write_result := Some OSError\<rparr>,
          example_inputs, example_inputs, example_inputs\<lparr>get_result := Inr (PyBytes [])\<rparr>]
         OuterLoop init_state))) = [[104, 105], [104, 105], [104, 105]]"
proof -
  have a: "persist_check (trace init_state) = Idle"
    by (simp add: init_state_def persist_check_def)
  have b: "saves (trace init_state) = received (trace init_state)"
    by (simp add: init_state_def)
  note T = one_persist_per_receive[OF a b, of html5_fragment
      "[example_inputs, example_inputs, example_inputs\<lparr>write_result := Some OSError\<rparr>,
        example_inputs, example_inputs, example_inputs\<lparr>get_result := Inr (PyBytes [])\<rparr>]"
      OuterLoop]
  have c: "saves (trace (final_state (listen_to_queue html5_fragment
         [example_inputs, example_inputs, example_inputs\<lparr>write_result := Some OSError\<rparr>,
          example_inputs, example_inputs, example_inputs\<lparr>get_result := Inr (PyBytes [])\<rparr>]
         OuterLoop init_state))) = [[104, 105], [104, 105], [104, 105]]"
    by (simp add: observe_stop_def step_defs example_inputs_def init_state_def final_state_def)
  show ?thesis
    by (intro conjI) (rule a b c T[THEN conjunct1] T[THEN conjunct2])+
qed

lemma acquired_append: "acquired (a @ b) = acquired a @ acquired b"
  by (induction a rule: acquired.induct) simp_all

lemma releases_append: "releases (a @ b) = releases a @ releases b"
  by (induction a rule: releases.induct) simp_all

lemma last_open_append: "last_open cur (a @ b) = last_open (last_open cur a) b"
  by (induction cur a rule: last_open.induct) simp_all

lemma own_queue_append:
  "own_queue cur (a @ b) \<longleftrightarrow> own_queue cur a \<and> own_queue (last_open cur a) b"
  by (induction cur a rule: own_queue.induct) simp_all

lemmas trace_append = acquired_append releases_append last_open_append own_queue_append

lemma bound_fresh: "\<forall>h \<in> set xs. h < (n::nat) \<Longrightarrow> n \<notin> set xs \<and> Suc n \<notin> set xs"
  by auto

lemma bound_mono:
  "\<forall>h \<in> set xs. h < (n::nat) \<Longrightarrow> (\<forall>h \<in> set xs. h < Suc n) \<and> (\<forall>h \<in> set xs. h < Suc (Suc n))"
  by auto

lemma pass_handles_outer:
  assumes "releases (trace s) = []" and "open_handles s = acquired (trace s)"
    and "distinct (open_handles s)" and "\<forall>h \<in> set (open_handles s). h < next_handle s"
    and "own_queue None (trace s)"
    and "pass h5 i OuterLoop s = (c, s')"
  shows "releases (trace s') = [] \<and> open_handles s' = acquired (trace s')
         \<and> distinct (open_handles s') \<and> (\<forall>h \<in> set (open_handles s'). h < next_handle s')
         \<and> own_queue None (trace s')
         \<and> (case c of Some (InnerLoop qmgr queue) \<Rightarrow> last_open None (trace s') = Some queue
             | _ \<Rightarrow> True)"
proof -
  note f = bound_fresh[OF assms(4)] bound_mono[OF assms(4)]
  show ?thesis
  proof (cases "connect_result i")
    case None
    show ?thesis
      using assms f None
      by (cases "queue_result i")
        (auto simp: pass_def observe_stop_def step_defs trace_append split: if_splits)
  next
    case (Some e)
    show ?thesis
      using assms f Some
      by (cases e)
        (auto simp: pass_def observe_stop_def step_defs trace_append split: if_splits)
  qed
qed

lemma inner_body_handles:
  assumes "inner_body h5 i queue s = (k, s1)"
  shows "\<exists>tr. trace s1 = trace s @ QueueGet queue 10000 (get_result i) # tr
              \<and> acquired tr = [] \<and> releases tr = []
              \<and> (\<forall>cur. last_open cur tr = cur \<and> own_queue cur tr)
              \<and> open_handles s1 = open_handles s \<and> next_handle s1 = next_handle s"
  using assms
  by (cases "get_result i"; cases "write_result i")
    (auto simp: step_defs split: if_splits exn.splits)

lemma pass_handles_inner:
  assumes "releases (trace s) = []" and "open_handles s = acquired (trace s)"
    and "distinct (open_handles s)" and "\<forall>h \<in> set (open_handles s). h < next_handle s"
    and "own_queue None (trace s)"
    and "last_open None (trace s) = Some queue"
    and "pass h5 i (InnerLoop qmgr queue) s = (c, s')"
  shows "releases (trace s') = [] \<and> open_handles s' = acquired (trace s')
         \<and> distinct (open_handles s') \<and> (\<forall>h \<in> set (open_handles s'). h < next_handle s')
         \<and> own_queue None (trace s')
         \<and> (case c of Some (InnerLoop qmgr queue) \<Rightarrow> last_open None (trace s') = Some queue
             | _ \<Rightarrow> True)"
proof (cases "stop_signal (observe_stop i s)")
  case True
  then show ?thesis using assms
    by (auto simp: pass_def observe_stop_def backoff_def sleep_def log_info_def emit_def
        trace_append)
next
  case False
  obtain k s1 where k: "inner_body h5 i queue (observe_stop i s) = (k, s1)"
    by (cases "inner_body h5 i queue (observe_stop i s)")
  from inner_body_handles[OF k] obtain tr where
    tr: "trace s1 = trace s @ QueueGet queue 10000 (get_result i) # tr"
    "acquired tr = []" "releases tr = []" "\<And>cur. last_open cur tr = cur"
    "\<And>cur. own_queue cur tr"
    "open_handles s1 = open_handles s" "next_handle s1 = next_handle s"
    by (auto simp: observe_stop_def)
  show ?thesis
    using assms False k tr
    by (cases k)
      (auto simp: pass_def backoff_def sleep_def log_info_def log_error_def emit_def
        trace_append)
qed

text \<open>
  Claim C8 says that a session's queue and connection are released when the session
  ends. The listener releases nothing: when the tray's exit ends the session of connection
  0 and queue 1 the function returns with both handles open and no close or disconnect in
  the trace, and when a receive error ends it the next session is opened on handles 2 and
  3 while 0 and 1 are still open.
\<close>

theorem session_never_released:
  "control (listen_to_queue html5_fragment
      [example_inputs\<lparr>exit_clicked := True\<rparr>, example_inputs] (InnerLoop 0 1) session_state) = None
   \<and> releases (trace (final_state (listen_to_queue html5_fragment
        [example_inputs\<lparr>exit_clicked := True\<rparr>, example_inputs] (InnerLoop 0 1) session_state))) = []
   \<and> open_handles (final_state (listen_to_queue html5_fragment
        [example_inputs\<lparr>exit_clicked := True\<rparr>, example_inputs] (InnerLoop 0 1) session_state))
      = [0, 1]
   \<and> control (listen_to_queue html5_fragment
        [example_inputs\<lparr>get_result := Inl (MQMIError 2009)\<rparr>, example_inputs]
        (InnerLoop 0 1) session_state) = Some (InnerLoop 2 3)
   \<and> releases (trace (final_state (listen_to_queue html5_fragment
        [example_inputs\<lparr>get_result := Inl (MQMIError 2009)\<rparr>, example_inputs]
        (InnerLoop 0 1) session_state))) = []
   \<and> open_handles (final_state (listen_to_queue html5_fragment
        [example_inputs\<lparr>get_result := Inl (MQMIError 2009)\<rparr>, example_inputs]
        (InnerLoop 0 1) session_state)) = [0, 1, 2, 3]"
  by (simp add: observe_stop_def step_defs example_inputs_def session_state_def control_def
      final_state_def MQRC_NO_MSG_AVAILABLE_def numeral_2_eq_2 numeral_3_eq_3)

text \<open>
  Claim C8, amended. In every run of the listener from its start, no \<open>queue.close()\<close> and no
  \<open>qmgr.disconnect()\<close> is ever issued, so every handle acquired is still open wherever the
  run stands (also when it has returned); the handles acquired are pairwise distinct, so
  no session shares a handle with another; and every \<open>queue.get\<close> is issued on the queue
  that was opened last, never on the queue of an earlier session.
\<close>

theorem handles_stay_open:
  "releases (trace (final_state (listen_to_queue h5 ins OuterLoop init_state))) = []
   \<and> open_handles (final_state (listen_to_queue h5 ins OuterLoop init_state))
       = acquired (trace (final_state (listen_to_queue h5 ins OuterLoop init_state)))
   \<and> distinct (acquired (trace (final_state (listen_to_queue h5 ins OuterLoop init_state))))
   \<and> own_queue None (trace (final_state (listen_to_queue h5 ins OuterLoop init_state)))"
proof -
  let ?I = "\<lambda>p s. releases (trace s) = [] \<and> open_handles s = acquired (trace s)
         \<and> distinct (open_handles s) \<and> (\<forall>h \<in> set (open_handles s). h < next_handle s)
         \<and> own_queue None (trace s)
         \<and> (case p of InnerLoop qmgr queue \<Rightarrow> last_open None (trace s) = Some queue
             | OuterLoop \<Rightarrow> True)"
  let ?Q = "\<lambda>s. releases (trace s) = [] \<and> open_handles s = acquired (trace s)
         \<and> distinct (acquired (trace s)) \<and> own_queue None (trace s)"
  have step: "?I p s \<Longrightarrow> pass h5 i p s = (c, s') \<Longrightarrow>
        ?Q s' \<and> (case c of Some p' \<Rightarrow> ?I p' s' | None \<Rightarrow> True)" for p s i c s'
  proof (cases p)
    case OuterLoop
    assume a: "?I p s" and b: "pass h5 i p s = (c, s')"
    from pass_handles_outer[of s h5 i c s'] a b OuterLoop
    show ?thesis by (auto split: option.splits pc.splits)
  next
    case (InnerLoop qmgr queue)
    assume a: "?I p s" and b: "pass h5 i p s = (c, s')"
    from pass_handles_inner[of s queue h5 i qmgr c s'] a b InnerLoop
    show ?thesis by (auto split: option.splits pc.splits)
  qed
  have "?Q (final_state (listen_to_queue h5 ins OuterLoop init_state))"
  proof (rule listen_invariant[where I = ?I])
    show "?I OuterLoop init_state" by (simp add: init_state_def)
  next
    fix i p s p' s'
    assume "?I p s" and "pass h5 i p s = (Some p', s')"
    from step[OF this] show "?I p' s'" by simp
  next
    fix i p s s'
    assume "?I p s" and "pass h5 i p s = (None, s')"
    from step[OF this] show "?Q s'" by simp
  next
    fix p s
    assume "?I p s"
    then show "?Q s" by auto
  qed
  then show ?thesis .
qed

theorem handles_stay_open_witness:
  "releases (trace (final_state (listen_to_queue html5_fragment
       [example_inputs, example_inputs\<lparr>get_result := Inl (MQMIError 2009)\<rparr>, example_inputs,
        example_inputs\<lparr>exit_clicked := True\<rparr>, example_inputs] OuterLoop init_state))) = []
   \<and> open_handles (final_state (listen_to_queue html5_fragment
       [example_inputs, example_inputs\<lparr>get_result := Inl (MQMIError 2009)\<rparr>, example_inputs,
        example_inputs\<lparr>exit_clicked := True\<rparr>, example_inputs] OuterLoop init_state))
     = acquired (trace (final_state (listen_to_queue html5_fragment
       [example_inputs, example_inputs\<lparr>get_result := Inl (MQMIError 2009)\<rparr>, example_inputs,
        example_inputs\<lparr>exit_clicked := True\<rparr>, example_inputs] OuterLoop init_state)))
   \<and> distinct (acquired (trace (final_state (listen_to_queue html5_fragment
       [example_inputs, example_inputs\<lparr>get_result := Inl (MQMIError 2009)\<rparr>, example_inputs,
        example_inputs\<lparr>exit_clicked := True\<rparr>, example_inputs] OuterLoop init_state))))
   \<and> own_queue None (trace (final_state (listen_to_queue html5_fragment
       [example_inputs, example_inputs\<lparr>get_result := Inl (MQMIError 2009)\<rparr>, example_inputs,
        example_inputs\<lparr>exit_clicked := True\<rparr>, example_inputs] OuterLoop init_state)))
   \<and> listen_to_queue html5_fragment
       [example_inputs, example_inputs\<lparr>get_result := Inl (MQMIError 2009)\<rparr>, example_inputs,
        example_inputs\<lparr>exit_clicked := True\<rparr>, example_inputs] OuterLoop init_state
     = Returned \<lparr>stop_signal = True,
         trace = [ConnectTcp (Inr 0), LogInfo ''Connected successfully to MQ.'',
                  QueueOpen 0 (Inr 1),
                  QueueGet 1 10000 (Inl (MQMIError 2009)),
                  LogError ''Error receiving message'' (MQMIError 2009),
                  LogInfo ''Retrying connection in 10 seconds...'', Sleep 10,
                  ConnectTcp (Inr 2), LogInfo ''Connected successfully to MQ.'',
                  QueueOpen 2 (Inr 3),
                  LogInfo ''Retrying connection in 10 seconds...'', Sleep 10],
         next_handle = 4, open_handles = [0, 1, 2, 3]\<rparr>"
proof -
  let ?ins = "[example_inputs, example_inputs\<lparr>get_result := Inl (MQMIError 2009)\<rparr>,
               example_inputs, example_inputs\<lparr>exit_clicked := True\<rparr>, example_inputs]"
  note T = handles_stay_open[of html5_fragment ?ins]
  have r: "listen_to_queue html5_fragment ?ins OuterLoop init_state
     = Returned \<lparr>stop_signal = True,
         trace = [ConnectTcp (Inr 0), LogInfo ''Connected successfully to MQ.'',
                  QueueOpen 0 (Inr 1),
                  QueueGet 1 10000 (Inl (MQMIError 2009)),
                  LogError ''Error receiving message'' (MQMIError 2009),
                  LogInfo ''Retrying connection in 10 seconds...'', Sleep 10,
                  ConnectTcp (Inr 2), LogInfo ''Connected successfully to MQ.'',
                  QueueOpen 2 (Inr 3),
                  LogInfo ''Retrying connection in 10 seconds...'', Sleep 10],
         next_handle = 4, open_handles = [0, 1, 2, 3]\<rparr>"
    by (simp add: observe_stop_def step_defs example_inputs_def init_state_def
        MQRC_NO_MSG_AVAILABLE_def numeral_2_eq_2 numeral_3_eq_3 eval_nat_numeral)
  show ?thesis
    by (intro conjI)
      (rule r T[THEN conjunct1] T[THEN conjunct2, THEN conjunct1]
        T[THEN conjunct2, THEN conjunct2, THEN conjunct1]
        T[THEN conjunct2, THEN conjunct2, THEN conjunct2])+
qed

end
